theory Spec2Isabelle
  imports Main "HOL-Library.Word"
begin

section \<open>Shared vocabulary\<close>

text \<open>
  Decoded audio is a vector of bytes; sample counts and microsecond positions are
  \<open>std::uint64_t\<close>.
\<close>

type_synonym byte = "8 word"
type_synonym u64 = "64 word"

text \<open>
  \<open>Audio::State\<close>: the state an audio item reports after an update. The enumeration
  is declared with the sink, whose header is not among the sources; \<open>audio.cpp\<close> names
  \<open>NONE\<close> and \<open>PLAYING\<close>, and the spec gives the sink's states as stopped, playing and
  at end.
\<close>

datatype audio_state = NONE | STOPPED | PLAYING | AT_END

text \<open>
  Modelled from the spec: the \<open>AudioSource::DecodeState\<close> enumeration is declared in
  the audio source header, which is not among the sources; the spec gives
  \<open>state \<in> {DECODING, END_OF_FILE}\<close>.
\<close>

datatype decode_state = DECODING | END_OF_FILE

text \<open>The message constants of \<open>messages.h\<close> that the audio code throws.\<close>

datatype message = MSG_CMD_NEEDS_LOADED

text \<open>\<open>ErrorCode\<close>, as far as the sources use it.\<close>

datatype error_code = INTERNAL_ERROR

text \<open>
  Everything that can leave a function other than by returning: a failed \<open>assert\<close>,
  the \<open>NoAudioError\<close> thrown by \<open>NoAudio\<close>, an exception thrown inside the source
  (a decoder or seek error, carried as its message), an \<open>Error\<close> with its code and
  message, the \<open>std::bad_alloc\<close> of a failed \<open>new\<close>, and the \<open>std::out_of_range\<close> of
  \<open>std::map::at\<close>.
\<close>

datatype exn =
    AssertionFailure
  | NoAudioError message
  | SourceError string
  | Error error_code string
  | bad_alloc
  | out_of_range

text \<open>
  A member function of an object with state \<open>'s\<close> returns its value or the exception it left
  with, together with the object as it is afterwards.
\<close>

type_synonym ('a, 's) outcome = "(exn + 'a) \<times> 's"

text \<open>What \<open>Response::Res(type, path, value)\<close> carries.\<close>

datatype res = Res string string string

section \<open>The source and the sink\<close>

text \<open>
  \<open>AudioSource\<close> and \<open>AudioSink\<close> are virtual interfaces whose implementations are
  outside the sources, so each is a record of the methods \<open>PipeAudio\<close> calls, over
  an arbitrary object state. \<open>Decode\<close> and \<open>Seek\<close> may throw; the source object is
  returned as it is after the call in either case.
\<close>

record 'src AudioSource =
  Source_Decode :: "'src \<Rightarrow> (string + decode_state \<times> byte list) \<times> 'src"
  Source_Seek :: "'src \<Rightarrow> u64 \<Rightarrow> (string + u64) \<times> 'src"
  Source_SamplesFromMicros :: "'src \<Rightarrow> u64 \<Rightarrow> u64"
  Source_MicrosFromSamples :: "'src \<Rightarrow> u64 \<Rightarrow> u64"
  Source_Path :: "'src \<Rightarrow> string"

text \<open>
  \<open>Sink_Transfer\<close> stands for \<open>Transfer(start, end)\<close>: it is handed the bytes between
  the two iterators and answers by how many bytes it moved \<open>start\<close> forward.
\<close>

record 'snk AudioSink =
  Sink_Start :: "'snk \<Rightarrow> 'snk"
  Sink_Stop :: "'snk \<Rightarrow> 'snk"
  Sink_SourceOut :: "'snk \<Rightarrow> 'snk"
  Sink_State :: "'snk \<Rightarrow> audio_state"
  Sink_Position :: "'snk \<Rightarrow> u64"
  Sink_SetPosition :: "'snk \<Rightarrow> u64 \<Rightarrow> 'snk"
  Sink_Transfer :: "'snk \<Rightarrow> byte list \<Rightarrow> nat \<times> 'snk"

section \<open>PipeAudio\<close>

text \<open>
  The members of \<open>PipeAudio\<close>. The two \<open>unique_ptr\<close>s may be null (\<open>None\<close>);
  \<open>frame_iterator\<close> is the offset of the iterator from \<open>frame.begin()\<close>, so that
  \<open>frame.end()\<close> is \<open>length frame\<close>.
\<close>

record ('src, 'snk) PipeAudio =
  src :: "'src option"
  sink :: "'snk option"
  frame :: "byte list"
  frame_iterator :: nat
  announced_time :: bool
  last_time :: u64

definition ClearFrame :: "('src, 'snk) PipeAudio \<Rightarrow> ('src, 'snk) PipeAudio" where
  "ClearFrame a = a\<lparr>frame := [], frame_iterator := 0\<rparr>"

text \<open>
  The constructor initialises \<open>src\<close>, \<open>sink\<close> and \<open>announced_time\<close> and clears the
  frame; \<open>last_time\<close> is left uninitialised, so its first value \<open>lt\<close> is arbitrary.
\<close>

definition PipeAudio_new :: "'src option \<Rightarrow> 'snk option \<Rightarrow> u64 \<Rightarrow> ('src, 'snk) PipeAudio" where
  "PipeAudio_new s k lt =
     ClearFrame \<lparr>src = s, sink = k, frame = [], frame_iterator = 0,
                 announced_time = False, last_time = lt\<rparr>"

definition FrameFinished :: "('src, 'snk) PipeAudio \<Rightarrow> bool" where
  "FrameFinished a = (length (frame a) \<le> frame_iterator a)"

definition CanAnnounceTime :: "u64 \<Rightarrow> ('src, 'snk) PipeAudio \<Rightarrow> bool \<times> ('src, 'snk) PipeAudio" where
  "CanAnnounceTime micros a =
     (let secs = micros div 1000 div 1000;
          announce = (\<not> announced_time a \<or> last_time a < secs)
      in if announce then (True, a\<lparr>announced_time := True, last_time := secs\<rparr>)
         else (False, a))"

definition SetPlaying ::
  "'snk AudioSink \<Rightarrow> bool \<Rightarrow> ('src, 'snk) PipeAudio \<Rightarrow> (unit, ('src, 'snk) PipeAudio) outcome" where
  "SetPlaying ko playing a =
     (case sink a of
        None \<Rightarrow> (Inl AssertionFailure, a)
      | Some k \<Rightarrow>
          if playing then (Inr (), a\<lparr>sink := Some (Sink_Start ko k)\<rparr>)
          else (Inr (), a\<lparr>sink := Some (Sink_Stop ko k)\<rparr>))"

definition Position ::
  "'src AudioSource \<Rightarrow> 'snk AudioSink \<Rightarrow> ('src, 'snk) PipeAudio \<Rightarrow> exn + u64" where
  "Position so ko a =
     (case sink a of
        None \<Rightarrow> Inl AssertionFailure
      | Some k \<Rightarrow>
          (case src a of
             None \<Rightarrow> Inl AssertionFailure
           | Some s \<Rightarrow> Inr (Source_MicrosFromSamples so s (Sink_Position ko k))))"

definition Seek ::
  "'src AudioSource \<Rightarrow> 'snk AudioSink \<Rightarrow> u64 \<Rightarrow> ('src, 'snk) PipeAudio
     \<Rightarrow> (unit, ('src, 'snk) PipeAudio) outcome" where
  "Seek so ko position a =
     (case sink a of
        None \<Rightarrow> (Inl AssertionFailure, a)
      | Some k \<Rightarrow>
          (case src a of
             None \<Rightarrow> (Inl AssertionFailure, a)
           | Some s \<Rightarrow>
               (let in_samples = Source_SamplesFromMicros so s position in
                case Source_Seek so s in_samples of
                  (Inl msg, s') \<Rightarrow> (Inl (SourceError msg), a\<lparr>src := Some s'\<rparr>)
                | (Inr out_samples, s') \<Rightarrow>
                    (Inr (),
                     ClearFrame
                       (a\<lparr>src := Some s',
                          sink := Some (Sink_SetPosition ko k out_samples),
                          announced_time := False\<rparr>)))))"

text \<open>
  \<open>DecodeIfFrameEmpty\<close> asserts that the frame is empty or unfinished, keeps an
  unfinished frame, and otherwise decodes: the result is whether more is available.
\<close>

definition DecodeIfFrameEmpty ::
  "'src AudioSource \<Rightarrow> ('src, 'snk) PipeAudio \<Rightarrow> (bool, ('src, 'snk) PipeAudio) outcome" where
  "DecodeIfFrameEmpty so a =
     (if \<not> (frame a = [] \<or> \<not> FrameFinished a) then (Inl AssertionFailure, a)
      else if \<not> FrameFinished a then (Inr True, a)
      else
        (case src a of
           None \<Rightarrow> (Inl AssertionFailure, a)
         | Some s \<Rightarrow>
             (case Source_Decode so s of
                (Inl msg, s') \<Rightarrow> (Inl (SourceError msg), a\<lparr>src := Some s'\<rparr>)
              | (Inr result, s') \<Rightarrow>
                  (Inr (fst result \<noteq> END_OF_FILE),
                   a\<lparr>src := Some s', frame := snd result, frame_iterator := 0\<rparr>))))"

text \<open>
  \<open>TransferFrame\<close> with its four assertions: the frame is non-empty, the sink and the
  source are present; after clearing a finished frame, the frame is finished; and on
  exit the frame is empty or the iterator lies in \<open>[begin, end)\<close>.
\<close>

definition TransferFrame ::
  "'snk AudioSink \<Rightarrow> ('src, 'snk) PipeAudio \<Rightarrow> (unit, ('src, 'snk) PipeAudio) outcome" where
  "TransferFrame ko a =
     (if frame a = [] then (Inl AssertionFailure, a)
      else
        (case sink a of
           None \<Rightarrow> (Inl AssertionFailure, a)
         | Some k \<Rightarrow>
             (case src a of
                None \<Rightarrow> (Inl AssertionFailure, a)
              | Some s \<Rightarrow>
                  (let (n, k') = Sink_Transfer ko k (drop (frame_iterator a) (frame a));
                       a1 = a\<lparr>sink := Some k', frame_iterator := frame_iterator a + n\<rparr>;
                       a2 = (if FrameFinished a1 then ClearFrame a1 else a1)
                   in if FrameFinished a1 \<and> \<not> FrameFinished a2 then (Inl AssertionFailure, a2)
                      else if frame a2 = [] \<or> (0 \<le> frame_iterator a2 \<and> frame_iterator a2 < length (frame a2))
                      then (Inr (), a2)
                      else (Inl AssertionFailure, a2)))))"

text \<open>
  \<open>Update\<close> asserts the sink and the source on entry; the sink is therefore present
  where \<open>SourceOut\<close> and \<open>State\<close> are called on it, and the last case distinction only
  unpacks it.
\<close>

definition Update ::
  "'src AudioSource \<Rightarrow> 'snk AudioSink \<Rightarrow> ('src, 'snk) PipeAudio
     \<Rightarrow> (audio_state, ('src, 'snk) PipeAudio) outcome" where
  "Update so ko a =
     (case sink a of
        None \<Rightarrow> (Inl AssertionFailure, a)
      | Some k0 \<Rightarrow>
          (case src a of
             None \<Rightarrow> (Inl AssertionFailure, a)
           | Some s0 \<Rightarrow>
               (case DecodeIfFrameEmpty so a of
                  (Inl e, a1) \<Rightarrow> (Inl e, a1)
                | (Inr more_available, a1) \<Rightarrow>
                    (let a2 = (if \<not> more_available
                               then a1\<lparr>sink := map_option (Sink_SourceOut ko) (sink a1)\<rparr>
                               else a1)
                     in case (if \<not> FrameFinished a2 then TransferFrame ko a2 else (Inr (), a2)) of
                          (Inl e, a3) \<Rightarrow> (Inl e, a3)
                        | (Inr u, a3) \<Rightarrow>
                            (case sink a3 of
                               None \<Rightarrow> (Inl AssertionFailure, a3)
                             | Some k \<Rightarrow> (Inr (Sink_State ko k), a3))))))"

text \<open>\<open>std::to_string\<close> on an unsigned number: its decimal digits.\<close>

fun to_string :: "nat \<Rightarrow> string" where
  "to_string n =
     (if n < 10 then [char_of (48 + n)]
      else to_string (n div 10) @ [char_of (48 + n mod 10)])"

declare to_string.simps [simp del]

definition Emit ::
  "'src AudioSource \<Rightarrow> 'snk AudioSink \<Rightarrow> string \<Rightarrow> bool \<Rightarrow> ('src, 'snk) PipeAudio
     \<Rightarrow> (res option, ('src, 'snk) PipeAudio) outcome" where
  "Emit so ko path broadcast a =
     (case src a of
        None \<Rightarrow> (Inl AssertionFailure, a)
      | Some s \<Rightarrow>
          (case sink a of
             None \<Rightarrow> (Inl AssertionFailure, a)
           | Some k \<Rightarrow>
               if path = ''/control/state'' then
                 (let playing = (Sink_State ko k = PLAYING)
                  in (Inr (Some (Res ''Entry'' path (if playing then ''Playing'' else ''Stopped''))), a))
               else if path = ''/player/file'' then
                 (Inr (Some (Res ''Entry'' path (Source_Path so s))), a)
               else if path = ''/player/time/elapsed'' then
                 (case Position so ko a of
                    Inl e \<Rightarrow> (Inl e, a)
                  | Inr micros \<Rightarrow>
                      (let (can, a') = (if \<not> broadcast then (True, a) else CanAnnounceTime micros a)
                       in if \<not> can then (Inr None, a')
                          else (Inr (Some (Res ''Entry'' path (to_string (unat micros)))), a')))
               else (Inr None, a)))"

section \<open>NoAudio and the Audio interface\<close>

text \<open>\<open>NoAudio\<close> has no members; its methods are constants.\<close>

definition NoAudio_Update :: audio_state where
  "NoAudio_Update = NONE"

definition NoAudio_Emit :: "string \<Rightarrow> bool \<Rightarrow> res option" where
  "NoAudio_Emit path broadcast =
     (if path = ''/control/state'' then Some (Res ''Entry'' ''/control/state'' ''Ejected'')
      else None)"

definition NoAudio_SetPlaying :: "bool \<Rightarrow> exn + unit" where
  "NoAudio_SetPlaying playing = Inl (NoAudioError MSG_CMD_NEEDS_LOADED)"

definition NoAudio_Seek :: "u64 \<Rightarrow> exn + unit" where
  "NoAudio_Seek position = Inl (NoAudioError MSG_CMD_NEEDS_LOADED)"

definition NoAudio_Position :: "exn + u64" where
  "NoAudio_Position = Inl (NoAudioError MSG_CMD_NEEDS_LOADED)"

text \<open>
  An \<open>Audio\<close> is one of the two implementations of the virtual interface; a call
  through the interface dispatches on which one it is. The calls and what they return:
\<close>

datatype ('src, 'snk) Audio = NoAudio | Pipe "('src, 'snk) PipeAudio"

datatype audio_call =
    CallUpdate
  | CallEmit string bool
  | CallSetPlaying bool
  | CallSeek u64
  | CallPosition

datatype audio_result =
    RetState audio_state
  | RetResponse "res option"
  | RetUnit
  | RetPosition u64

fun with_pipe ::
  "('a \<Rightarrow> audio_result) \<Rightarrow> ('a, ('src, 'snk) PipeAudio) outcome
     \<Rightarrow> (audio_result, ('src, 'snk) Audio) outcome" where
  "with_pipe ret (r, a) = (map_sum id ret r, Pipe a)"

fun Audio_call ::
  "'src AudioSource \<Rightarrow> 'snk AudioSink \<Rightarrow> audio_call \<Rightarrow> ('src, 'snk) Audio
     \<Rightarrow> (audio_result, ('src, 'snk) Audio) outcome" where
  "Audio_call so ko CallUpdate NoAudio = (Inr (RetState NoAudio_Update), NoAudio)"
| "Audio_call so ko (CallEmit path broadcast) NoAudio =
     (Inr (RetResponse (NoAudio_Emit path broadcast)), NoAudio)"
| "Audio_call so ko (CallSetPlaying playing) NoAudio =
     (map_sum id (\<lambda>u. RetUnit) (NoAudio_SetPlaying playing), NoAudio)"
| "Audio_call so ko (CallSeek position) NoAudio =
     (map_sum id (\<lambda>u. RetUnit) (NoAudio_Seek position), NoAudio)"
| "Audio_call so ko CallPosition NoAudio = (map_sum id RetPosition NoAudio_Position, NoAudio)"
| "Audio_call so ko CallUpdate (Pipe a) = with_pipe RetState (Update so ko a)"
| "Audio_call so ko (CallEmit path broadcast) (Pipe a) =
     with_pipe RetResponse (Emit so ko path broadcast a)"
| "Audio_call so ko (CallSetPlaying playing) (Pipe a) =
     with_pipe (\<lambda>u. RetUnit) (SetPlaying ko playing a)"
| "Audio_call so ko (CallSeek position) (Pipe a) = with_pipe (\<lambda>u. RetUnit) (Seek so ko position a)"
| "Audio_call so ko CallPosition (Pipe a) = (map_sum id RetPosition (Position so ko a), Pipe a)"

section \<open>Sequences of calls on one PipeAudio\<close>

text \<open>
  What can happen to a constructed \<open>PipeAudio\<close>: the calls of its public interface,
  and, between them, the device callback running on the sink (\<open>OpCallback\<close>, any
  change of the sink object). An exception leaves the object as the throwing method
  left it, and the caller goes on.
\<close>

datatype 'snk pipe_op =
    OpUpdate
  | OpSeek u64
  | OpSetPlaying bool
  | OpEmit string bool
  | OpCallback "'snk \<Rightarrow> 'snk"

fun apply_op ::
  "'src AudioSource \<Rightarrow> 'snk AudioSink \<Rightarrow> 'snk pipe_op \<Rightarrow> ('src, 'snk) PipeAudio
     \<Rightarrow> ('src, 'snk) PipeAudio" where
  "apply_op so ko OpUpdate a = snd (Update so ko a)"
| "apply_op so ko (OpSeek position) a = snd (Seek so ko position a)"
| "apply_op so ko (OpSetPlaying playing) a = snd (SetPlaying ko playing a)"
| "apply_op so ko (OpEmit path broadcast) a = snd (Emit so ko path broadcast a)"
| "apply_op so ko (OpCallback f) a = a\<lparr>sink := map_option f (sink a)\<rparr>"

fun run_ops ::
  "'src AudioSource \<Rightarrow> 'snk AudioSink \<Rightarrow> ('src, 'snk) PipeAudio \<Rightarrow> 'snk pipe_op list
     \<Rightarrow> ('src, 'snk) PipeAudio" where
  "run_ops so ko a [] = a"
| "run_ops so ko a (op # ops) = run_ops so ko (apply_op so ko op a) ops"

text \<open>The whole seconds of a microsecond count.\<close>

definition whole_seconds :: "u64 \<Rightarrow> nat" where
  "whole_seconds micros = unat micros div 1000000"

text \<open>
  The position broadcasts of a sequence of calls: the microsecond positions for which
  a broadcast \<open>Emit\<close> of the elapsed time produced a response, in order.
\<close>

definition is_seek :: "'snk pipe_op \<Rightarrow> bool" where
  "is_seek op = (case op of OpSeek position \<Rightarrow> True | _ \<Rightarrow> False)"

definition pos_broadcast ::
  "'src AudioSource \<Rightarrow> 'snk AudioSink \<Rightarrow> 'snk pipe_op \<Rightarrow> ('src, 'snk) PipeAudio \<Rightarrow> u64 list" where
  "pos_broadcast so ko op a =
     (case op of
        OpEmit path broadcast \<Rightarrow>
          if broadcast \<and> path = ''/player/time/elapsed'' then
            (case (Position so ko a, fst (Emit so ko path broadcast a)) of
               (Inr micros, Inr (Some r)) \<Rightarrow> [micros]
             | _ \<Rightarrow> [])
          else []
      | _ \<Rightarrow> [])"

fun broadcast_log ::
  "'src AudioSource \<Rightarrow> 'snk AudioSink \<Rightarrow> ('src, 'snk) PipeAudio \<Rightarrow> 'snk pipe_op list
     \<Rightarrow> u64 list" where
  "broadcast_log so ko a [] = []"
| "broadcast_log so ko a (op # ops) =
     pos_broadcast so ko op a @ broadcast_log so ko (apply_op so ko op a) ops"

section \<open>The update cycle as the specification words it\<close>

text \<open>
  The three steps of the specified cycle, for a \<open>PipeAudio\<close> holding source \<open>s\<close> and
  sink \<open>k\<close>: decode when the frame is finished (empty or fully transferred), replacing
  the frame and telling the sink when the source is out; transfer when the frame is
  non-empty, clearing it when the cursor reaches its end; answer the sink's state.
\<close>

definition update_cycle ::
  "'src AudioSource \<Rightarrow> 'snk AudioSink \<Rightarrow> 'src \<Rightarrow> 'snk \<Rightarrow> ('src, 'snk) PipeAudio
     \<Rightarrow> (audio_state, ('src, 'snk) PipeAudio) outcome" where
  "update_cycle so ko s k a =
     (let finished = (frame a = [] \<or> length (frame a) \<le> frame_iterator a);
          decoded = (if finished then Some (Source_Decode so s) else None)
      in case decoded of
           Some (Inl msg, s') \<Rightarrow> (Inl (SourceError msg), a\<lparr>src := Some s'\<rparr>)
         | _ \<Rightarrow>
           (let (s1, fr, cursor, k1) =
                  (case decoded of
                     Some (Inr (st, bytes), s') \<Rightarrow>
                       (s', bytes, 0, if st = END_OF_FILE then Sink_SourceOut ko k else k)
                   | _ \<Rightarrow> (s, frame a, frame_iterator a, k));
                (fr2, cursor2, k2) =
                  (if fr \<noteq> [] then
                     (let (n, k') = Sink_Transfer ko k1 (drop cursor fr) in
                      if length fr \<le> cursor + n then ([], 0, k') else (fr, cursor + n, k'))
                   else (fr, cursor, k1))
            in (Inr (Sink_State ko k2),
                a\<lparr>src := Some s1, sink := Some k2, frame := fr2, frame_iterator := cursor2\<rparr>)))"

text \<open>The invariant of the frame and its cursor, and of a constructed object.\<close>

definition frame_inv :: "('src, 'snk) PipeAudio \<Rightarrow> bool" where
  "frame_inv a = (frame a = [] \<or> (0 \<le> frame_iterator a \<and> frame_iterator a < length (frame a)))"

definition constructed :: "('src, 'snk) PipeAudio \<Rightarrow> bool" where
  "constructed a = (src a \<noteq> None \<and> sink a \<noteq> None \<and> frame_inv a)"

section \<open>A source and a sink to run the model on\<close>

text \<open>
  A source that hands out the chunks of a list one by one and then reports the end of
  the file, and a sink that takes at most two bytes per transfer. The sink's state is
  its transport state, its position and whether the source is out.
\<close>

definition list_source :: "(byte list list) AudioSource" where
  "list_source =
     \<lparr>Source_Decode = (\<lambda>s. case s of [] \<Rightarrow> (Inr (END_OF_FILE, []), [])
                                   | c # cs \<Rightarrow> (Inr (DECODING, c), cs)),
      Source_Seek = (\<lambda>s p. if p < 100 then (Inr p, s) else (Inl ''out of range'', s)),
      Source_SamplesFromMicros = (\<lambda>s m. m div 1000000),
      Source_MicrosFromSamples = (\<lambda>s n. n * 1000000),
      Source_Path = (\<lambda>s. ''a.wav'')\<rparr>"

definition slow_sink :: "(audio_state \<times> u64 \<times> bool) AudioSink" where
  "slow_sink =
     \<lparr>Sink_Start = (\<lambda>(st, p, out). (PLAYING, p, out)),
      Sink_Stop = (\<lambda>(st, p, out). (STOPPED, p, out)),
      Sink_SourceOut = (\<lambda>(st, p, out). (st, p, True)),
      Sink_State = (\<lambda>(st, p, out). st),
      Sink_Position = (\<lambda>(st, p, out). p),
      Sink_SetPosition = (\<lambda>(st, p, out) q. (st, q, False)),
      Sink_Transfer = (\<lambda>(st, p, out) bs. (min 2 (length bs), (st, p + 1, out)))\<rparr>"

definition demo_audio :: "(byte list list, audio_state \<times> u64 \<times> bool) PipeAudio" where
  "demo_audio = PipeAudio_new (Some [[1, 2, 3], [4]]) (Some (PLAYING, 0, False)) 7"

definition demo_audio_1 :: "(byte list list, audio_state \<times> u64 \<times> bool) PipeAudio" where
  "demo_audio_1 =
     \<lparr>src = Some [[4]], sink = Some (PLAYING, 1, False), frame = [1, 2, 3],
      frame_iterator = 2, announced_time = False, last_time = 7\<rparr>"

text \<open>Two objects whose throttle holds the same record of the last announcement.\<close>

definition same_record :: "('src, 'snk) PipeAudio \<Rightarrow> ('src, 'snk) PipeAudio \<Rightarrow> bool" where
  "same_record a b = (announced_time b = announced_time a \<and> last_time b = last_time a)"

text \<open>The path under which \<open>Emit\<close> reports the elapsed time.\<close>

definition elapsed :: string where
  "elapsed = ''/player/time/elapsed''"

text \<open>
  A run in which the device callback moves the sink's position back to 0 and then on
  to 9 between broadcasts.
\<close>

definition demo_ops :: "(audio_state \<times> u64 \<times> bool) pipe_op list" where
  "demo_ops =
     [OpEmit elapsed True, OpUpdate, OpEmit elapsed True,
      OpCallback (\<lambda>(st, p, out). (st, 0, out)), OpEmit elapsed True,
      OpCallback (\<lambda>(st, p, out). (st, 9, out)), OpEmit elapsed True, OpEmit elapsed False]"

section \<open>Responses and the tokeniser\<close>

text \<open>\<open>Response::Code\<close>, from \<open>response.h\<close>.\<close>

datatype Code = OHAI | IAMA | FLOAD | EJECT | POS | END | PLAY | STOP | ACK | LEN

text \<open>
  Modelled from the spec: the table of wire names (\<open>Response::STRINGS\<close>) is defined in
  \<open>response.cpp\<close>, which is not among the sources; the spec's table of response codes
  gives each code its own name as wire name.
\<close>

fun code_name :: "Code \<Rightarrow> string" where
  "code_name OHAI = ''OHAI''"
| "code_name IAMA = ''IAMA''"
| "code_name FLOAD = ''FLOAD''"
| "code_name EJECT = ''EJECT''"
| "code_name POS = ''POS''"
| "code_name END = ''END''"
| "code_name PLAY = ''PLAY''"
| "code_name STOP = ''STOP''"
| "code_name ACK = ''ACK''"
| "code_name LEN = ''LEN''"

text \<open>The characters the protocol treats specially.\<close>

abbreviation LF :: char where "LF \<equiv> CHR 0x0A"
abbreviation CR :: char where "CR \<equiv> CHR 0x0D"
abbreviation TAB :: char where "TAB \<equiv> CHR 0x09"
abbreviation SPACE :: char where "SPACE \<equiv> CHR 0x20"
abbreviation DQUOTE :: char where "DQUOTE \<equiv> CHR 0x22"
abbreviation SQUOTE :: char where "SQUOTE \<equiv> CHR 0x27"
abbreviation BACKSLASH :: char where "BACKSLASH \<equiv> CHR 0x5C"

text \<open>
  Modelled from the spec: the characters whose presence makes \<open>Response::EscapeArg\<close>
  quote an argument (its body is in \<open>response.cpp\<close>, which is not among the sources):
  space, tab, carriage return, newline, double quote, single quote and backslash.
\<close>

definition escaper :: "char \<Rightarrow> bool" where
  "escaper c = (c = SPACE \<or> c = TAB \<or> c = CR \<or> c = LF \<or> c = DQUOTE \<or> c = SQUOTE \<or> c = BACKSLASH)"

text \<open>
  Modelled from the spec: an argument is quoted if it is empty or contains any of these
  characters.
\<close>

definition needs_quoting :: "string \<Rightarrow> bool" where
  "needs_quoting arg = (arg = [] \<or> list_ex escaper arg)"

text \<open>
  Modelled from the spec: inside the quotes each double quote and each backslash is
  preceded by a backslash.
\<close>

definition escape_char :: "char \<Rightarrow> string" where
  "escape_char c =
     (if c = DQUOTE then [BACKSLASH, DQUOTE]
      else if c = BACKSLASH then [BACKSLASH, BACKSLASH]
      else [c])"

text \<open>
  Modelled from the spec: \<open>Response::EscapeArg\<close> wraps an argument that needs quoting
  in double quotes and emits any other argument verbatim.
\<close>

definition EscapeArg :: "string \<Rightarrow> string" where
  "EscapeArg arg =
     (if needs_quoting arg then [DQUOTE] @ concat (map escape_char arg) @ [DQUOTE] else arg)"

text \<open>
  A \<open>Response\<close> holds its packed form (the member \<open>string\<close> of \<open>response.h\<close>).
\<close>

type_synonym Response = string

text \<open>
  Modelled from the spec: the constructor \<open>Response(tag, code)\<close>, whose body is in
  \<open>response.cpp\<close>. The line starts with the tag and the wire name of the code, joined
  with a single space. The tag is a word of the line like the arguments (the spec's
  data model: any word containing whitespace, a quote or a backslash is quoted), so it
  goes through the same escape rule.
\<close>

definition Response_new :: "string \<Rightarrow> Code \<Rightarrow> Response" where
  "Response_new tag code = EscapeArg tag @ [SPACE] @ code_name code"

text \<open>
  Modelled from the spec: \<open>AddArg\<close> (body in \<open>response.cpp\<close>) joins the escaped
  argument to the line with a single space; the header asks for the argument unescaped.
\<close>

definition AddArg :: "Response \<Rightarrow> string \<Rightarrow> Response" where
  "AddArg r arg = r @ [SPACE] @ EscapeArg arg"

text \<open>
  Modelled from the spec: \<open>Pack\<close> (body in \<open>response.cpp\<close>) returns the line, with no
  newline appended.
\<close>

definition Pack :: "Response \<Rightarrow> string" where
  "Pack r = r"

text \<open>The response built from a tag, a code and a list of arguments added in order.\<close>

definition build_response :: "string \<Rightarrow> Code \<Rightarrow> string list \<Rightarrow> Response" where
  "build_response tag code args = foldl AddArg (Response_new tag code) args"

text \<open>
  Modelled from the spec: the \<open>Tokeniser\<close> is declared in \<open>tokeniser.h\<close>, which is not
  among the sources. Its six states and the rules for each byte are the spec's; a
  newline outside quotes ends the line and yields the words accumulated, the word in
  progress included.
\<close>

datatype tok_state = NORMAL | IN_WORD | IN_SINGLE | IN_DOUBLE | ESCAPE_NORMAL | ESCAPE_DOUBLE

record Tokeniser =
  tok_state :: tok_state
  words :: "string list"
  current_word :: string

text \<open>Modelled from the spec: a fresh tokeniser is in \<open>NORMAL\<close> with nothing accumulated.\<close>

definition Tokeniser_new :: Tokeniser where
  "Tokeniser_new = \<lparr>tok_state = NORMAL, words = [], current_word = []\<rparr>"

text \<open>Modelled from the spec: a byte is appended to the word in progress.\<close>

definition Push :: "char \<Rightarrow> Tokeniser \<Rightarrow> Tokeniser" where
  "Push c t = t\<lparr>current_word := current_word t @ [c]\<rparr>"

text \<open>
  Modelled from the spec: whitespace closes the current word, if any: only \<open>IN_WORD\<close>
  has one, and an empty word that was quoted counts.
\<close>

definition EndWord :: "Tokeniser \<Rightarrow> Tokeniser" where
  "EndWord t =
     (if tok_state t = IN_WORD
      then t\<lparr>tok_state := NORMAL, words := words t @ [current_word t], current_word := []\<rparr>
      else t)"

text \<open>
  Modelled from the spec: the rules of \<open>NORMAL\<close> and \<open>IN_WORD\<close>. A newline ends the
  line and resets the tokeniser, a carriage return is ignored, a space or a tab closes
  the current word, a quote or a backslash changes the state, any other byte is
  appended.
\<close>

definition feed_unquoted :: "char \<Rightarrow> Tokeniser \<Rightarrow> string list option \<times> Tokeniser" where
  "feed_unquoted c t =
     (if c = LF then (Some (words (EndWord t)), Tokeniser_new)
      else if c = CR then (None, t)
      else if c = SPACE \<or> c = TAB then (None, EndWord t)
      else if c = SQUOTE then (None, t\<lparr>tok_state := IN_SINGLE\<rparr>)
      else if c = DQUOTE then (None, t\<lparr>tok_state := IN_DOUBLE\<rparr>)
      else if c = BACKSLASH then (None, t\<lparr>tok_state := ESCAPE_NORMAL\<rparr>)
      else (None, (Push c t)\<lparr>tok_state := IN_WORD\<rparr>))"

text \<open>
  Modelled from the spec: one byte in each of the six states. Inside single quotes
  every byte but the single quote is appended; inside double quotes a backslash
  escapes and the double quote closes; an escaped byte is appended as it is.
\<close>

definition feed_byte :: "char \<Rightarrow> Tokeniser \<Rightarrow> string list option \<times> Tokeniser" where
  "feed_byte c t =
     (case tok_state t of
        NORMAL \<Rightarrow> feed_unquoted c t
      | IN_WORD \<Rightarrow> feed_unquoted c t
      | IN_SINGLE \<Rightarrow>
          if c = SQUOTE then (None, t\<lparr>tok_state := IN_WORD\<rparr>) else (None, Push c t)
      | IN_DOUBLE \<Rightarrow>
          if c = BACKSLASH then (None, t\<lparr>tok_state := ESCAPE_DOUBLE\<rparr>)
          else if c = DQUOTE then (None, t\<lparr>tok_state := IN_WORD\<rparr>)
          else (None, Push c t)
      | ESCAPE_NORMAL \<Rightarrow> (None, (Push c t)\<lparr>tok_state := IN_WORD\<rparr>)
      | ESCAPE_DOUBLE \<Rightarrow> (None, (Push c t)\<lparr>tok_state := IN_DOUBLE\<rparr>))"

text \<open>
  Modelled from the spec: feeding bytes yields the lines completed, in order, and the
  tokeniser afterwards.
\<close>

fun Feed :: "Tokeniser \<Rightarrow> string \<Rightarrow> string list list \<times> Tokeniser" where
  "Feed t [] = ([], t)"
| "Feed t (c # cs) =
     (let (line, t') = feed_byte c t;
          (lines, t'') = Feed t' cs
      in ((case line of None \<Rightarrow> lines | Some l \<Rightarrow> l # lines), t''))"

text \<open>
  Modelled from the spec: the write path of a connection (\<open>Connection::Respond\<close>, in
  \<open>io.cpp\<close>, not among the sources): each response is serialised, a newline is
  appended, and the bytes are enqueued to the write queue.
\<close>

definition Connection_Respond :: "Response \<Rightarrow> string list \<Rightarrow> string list" where
  "Connection_Respond response queue = queue @ [Pack response @ [LF]]"

text \<open>
  \<open>Responder::Respond\<close> of \<open>io_response.cpp\<close>, with its table \<open>RESPONSES\<close>: the line
  is the code's name, a space, the message and the newline of \<open>std::endl\<close>, handed to
  the pure virtual \<open>RespondRaw\<close> (a parameter, acting on an arbitrary output \<open>'io\<close>).
\<close>

datatype ResponseCode =
    ResponseCode_OKAY
  | ResponseCode_WHAT
  | ResponseCode_FAIL
  | ResponseCode_OOPS
  | ResponseCode_NOPE
  | ResponseCode_OHAI
  | ResponseCode_TTFN
  | ResponseCode_STAT
  | ResponseCode_TIME

definition RESPONSES :: "ResponseCode \<rightharpoonup> string" where
  "RESPONSES =
     map_of
       [(ResponseCode_OKAY, ''OKAY''), (ResponseCode_WHAT, ''WHAT''),
        (ResponseCode_FAIL, ''FAIL''), (ResponseCode_OOPS, ''OOPS''),
        (ResponseCode_NOPE, ''NOPE''), (ResponseCode_OHAI, ''OHAI''),
        (ResponseCode_TTFN, ''TTFN''), (ResponseCode_STAT, ''STAT''),
        (ResponseCode_TIME, ''TIME'')]"

definition Responder_Respond ::
  "(string \<Rightarrow> 'io \<Rightarrow> 'io) \<Rightarrow> ResponseCode \<Rightarrow> string \<Rightarrow> 'io \<Rightarrow> (unit, 'io) outcome" where
  "Responder_Respond RespondRaw code message io =
     (case RESPONSES code of
        None \<Rightarrow> (Inl out_of_range, io)
      | Some name \<Rightarrow> (Inr (), RespondRaw (name @ [SPACE] @ message @ [LF]) io))"

section \<open>The ring buffer\<close>

text \<open>
  Modelled from the spec: the \<open>PaUtil_*\<close> functions that \<open>PaRingBuffer\<close> wraps are in
  \<open>contrib/pa_ringbuffer\<close>, which is not among the sources. The spec's ring buffer
  has a fixed capacity, takes at most its write capacity on a write and gives at most
  its read capacity on a read, returning the count transferred, and refuses to
  initialise with capacity zero. The buffer is held as its capacity and the elements
  written and not yet read, oldest first.
\<close>

record 'a PaUtilRingBuffer =
  bufferSize :: nat
  elementSizeBytes :: nat
  stored :: "'a list"






text \<open>Modelled from the spec: a flush empties the buffer.\<close>

definition PaUtil_FlushRingBuffer :: "'a PaUtilRingBuffer \<Rightarrow> 'a PaUtilRingBuffer" where
  "PaUtil_FlushRingBuffer rb = rb\<lparr>stored := []\<rparr>"






definition Flush :: "'a PaUtilRingBuffer \<Rightarrow> 'a PaUtilRingBuffer" where
  "Flush rb = PaUtil_FlushRingBuffer rb"

text \<open>A response with a plain argument, one with a space and an empty one.\<close>

definition demo_response :: Response where
  "demo_response = build_response ''x1'' ACK [''OK'', ''a b'', []]"



section \<open>Facts about the frame and its cursor\<close>

lemma FrameFinished_sink_update [simp]:
  "FrameFinished (a\<lparr>sink := k\<rparr>) = FrameFinished a"
  by (simp add: FrameFinished_def)

lemma constructed_new: "constructed (PipeAudio_new (Some s) (Some k) lt)"
  by (simp add: constructed_def frame_inv_def PipeAudio_new_def ClearFrame_def)

text \<open>What \<open>DecodeIfFrameEmpty\<close> does on a constructed object: one of three things.\<close>

lemma DecodeIfFrameEmpty_cases:
  assumes "constructed a"
  obtains (keep) "DecodeIfFrameEmpty so a = (Inr True, a)" "\<not> FrameFinished a"
    | (thrown) msg s s' where "src a = Some s"
        "DecodeIfFrameEmpty so a = (Inl (SourceError msg), a\<lparr>src := Some s'\<rparr>)"
    | (decoded) st bytes s s' where "src a = Some s" "frame a = []"
        "DecodeIfFrameEmpty so a =
           (Inr (st \<noteq> END_OF_FILE), a\<lparr>src := Some s', frame := bytes, frame_iterator := 0\<rparr>)"
proof (cases "FrameFinished a")
  case False
  then have "DecodeIfFrameEmpty so a = (Inr True, a)" by (simp add: DecodeIfFrameEmpty_def)
  from this False show ?thesis by (rule keep)
next
  case True
  with assms have e: "frame a = []"
    by (auto simp: constructed_def frame_inv_def FrameFinished_def)
  from assms obtain s where s: "src a = Some s" by (auto simp: constructed_def)
  obtain r s' where d: "Source_Decode so s = (r, s')" by (cases "Source_Decode so s")
  show ?thesis
  proof (cases r)
    case (Inl msg)
    with True e s d
    have "DecodeIfFrameEmpty so a = (Inl (SourceError msg), a\<lparr>src := Some s'\<rparr>)"
      by (simp add: DecodeIfFrameEmpty_def)
    with s show ?thesis by (rule thrown)
  next
    case (Inr result)
    with True e s d
    have "DecodeIfFrameEmpty so a =
            (Inr (fst result \<noteq> END_OF_FILE),
             a\<lparr>src := Some s', frame := snd result, frame_iterator := 0\<rparr>)"
      by (simp add: DecodeIfFrameEmpty_def)
    with s e show ?thesis by (rule decoded)
  qed
qed

lemma TransferFrame_constructed:
  assumes "constructed a" and "\<not> FrameFinished a"
  shows "fst (TransferFrame ko a) = Inr () \<and> constructed (snd (TransferFrame ko a))"
proof -
  from assms obtain s k where sk: "src a = Some s" "sink a = Some k"
    by (auto simp: constructed_def)
  from assms(2) have ne: "frame a \<noteq> []" by (auto simp: FrameFinished_def)
  obtain n k' where t: "Sink_Transfer ko k (drop (frame_iterator a) (frame a)) = (n, k')"
    by (cases "Sink_Transfer ko k (drop (frame_iterator a) (frame a))")
  show ?thesis
  proof (cases "length (frame a) \<le> frame_iterator a + n")
    case True
    with sk ne t show ?thesis
      by (simp add: TransferFrame_def FrameFinished_def ClearFrame_def constructed_def
          frame_inv_def)
  next
    case False
    with sk ne t show ?thesis
      by (simp add: TransferFrame_def FrameFinished_def ClearFrame_def constructed_def
          frame_inv_def)
  qed
qed

lemma constructed_map_sink:
  "constructed a \<Longrightarrow> constructed (a\<lparr>sink := map_option f (sink a)\<rparr>)"
  by (auto simp: constructed_def frame_inv_def)

lemma DecodeIfFrameEmpty_constructed:
  assumes "constructed a" and "DecodeIfFrameEmpty so a = (Inr avail, a1)"
  shows "constructed a1"
  using assms(1)
proof (cases rule: DecodeIfFrameEmpty_cases [where so = so])
  case keep
  with assms show ?thesis by simp
next
  case (thrown msg s s')
  with assms show ?thesis by simp
next
  case (decoded st bytes s s')
  with assms show ?thesis by (auto simp: constructed_def frame_inv_def)
qed

lemma Update_constructed:
  assumes "constructed a"
  shows "fst (Update so ko a) \<noteq> Inl AssertionFailure \<and> constructed (snd (Update so ko a))"
proof -
  from assms obtain s0 k0 where sk: "src a = Some s0" "sink a = Some k0"
    by (auto simp: constructed_def)
  from assms show ?thesis
  proof (cases rule: DecodeIfFrameEmpty_cases [where so = so])
    case keep
    from TransferFrame_constructed [OF assms keep(2), of ko]
    obtain a3 where t: "TransferFrame ko a = (Inr (), a3)" and c: "constructed a3"
      by (cases "TransferFrame ko a") auto
    from c obtain k where "sink a3 = Some k" by (auto simp: constructed_def)
    with sk keep t c show ?thesis by (simp add: Update_def)
  next
    case (thrown msg s s')
    with sk assms show ?thesis by (simp add: Update_def constructed_def frame_inv_def)
  next
    case (decoded st bytes s s')
    define a1 where "a1 = a\<lparr>src := Some s', frame := bytes, frame_iterator := 0\<rparr>"
    define a2 where
      "a2 = (if \<not> (st \<noteq> END_OF_FILE)
             then a1\<lparr>sink := map_option (Sink_SourceOut ko) (sink a1)\<rparr> else a1)"
    have u: "Update so ko a =
               (case (if \<not> FrameFinished a2 then TransferFrame ko a2 else (Inr (), a2)) of
                  (Inl e, a3) \<Rightarrow> (Inl e, a3)
                | (Inr u, a3) \<Rightarrow>
                    (case sink a3 of
                       None \<Rightarrow> (Inl AssertionFailure, a3)
                     | Some k \<Rightarrow> (Inr (Sink_State ko k), a3)))"
      using sk decoded by (simp add: Update_def a1_def a2_def Let_def)
    have fin: "FrameFinished a2 = (bytes = [])"
      by (simp add: a2_def a1_def FrameFinished_def)
    have c2: "constructed a2"
      using sk by (cases "bytes = []") (simp_all add: a2_def a1_def constructed_def frame_inv_def)
    show ?thesis
    proof (cases "bytes = []")
      case True
      from c2 obtain k where "sink a2 = Some k" by (auto simp: constructed_def)
      with True fin c2 u show ?thesis by simp
    next
      case False
      with fin have nf: "\<not> FrameFinished a2" by simp
      from TransferFrame_constructed [OF c2 nf, of ko]
      obtain a3 where t: "TransferFrame ko a2 = (Inr (), a3)" and c: "constructed a3"
        by (cases "TransferFrame ko a2") auto
      from c obtain k where "sink a3 = Some k" by (auto simp: constructed_def)
      with nf t c u show ?thesis by simp
    qed
  qed
qed

lemma Seek_constructed:
  assumes "constructed a"
  shows "constructed (snd (Seek so ko position a))"
  using assms
  by (auto simp: Seek_def constructed_def frame_inv_def ClearFrame_def Let_def
      split: option.splits prod.splits sum.splits)

lemma SetPlaying_constructed:
  assumes "constructed a"
  shows "constructed (snd (SetPlaying ko playing a))"
  using assms
  by (auto simp: SetPlaying_def constructed_def frame_inv_def split: option.splits)

lemma CanAnnounceTime_frame:
  "src (snd (CanAnnounceTime m a)) = src a \<and> sink (snd (CanAnnounceTime m a)) = sink a
   \<and> frame (snd (CanAnnounceTime m a)) = frame a
   \<and> frame_iterator (snd (CanAnnounceTime m a)) = frame_iterator a"
  by (simp add: CanAnnounceTime_def Let_def)

lemma Emit_frame:
  "src (snd (Emit so ko path broadcast a)) = src a
   \<and> sink (snd (Emit so ko path broadcast a)) = sink a
   \<and> frame (snd (Emit so ko path broadcast a)) = frame a
   \<and> frame_iterator (snd (Emit so ko path broadcast a)) = frame_iterator a"
  by (simp add: Emit_def Let_def split_def CanAnnounceTime_frame
      split: option.splits sum.splits)

lemma Emit_constructed:
  assumes "constructed a"
  shows "constructed (snd (Emit so ko path broadcast a))"
  using assms by (simp add: constructed_def frame_inv_def Emit_frame)

lemma apply_op_constructed:
  assumes "constructed a"
  shows "constructed (apply_op so ko op a)"
  using assms
  by (cases op)
    (simp_all add: Update_constructed Seek_constructed SetPlaying_constructed Emit_constructed
      constructed_map_sink)

lemma run_ops_constructed:
  assumes "constructed a"
  shows "constructed (run_ops so ko a ops)"
  using assms by (induction ops arbitrary: a) (simp_all add: apply_op_constructed)

lemma demo_update: "Update list_source slow_sink demo_audio = (Inr PLAYING, demo_audio_1)"
  by (simp add: demo_audio_def demo_audio_1_def PipeAudio_new_def ClearFrame_def Update_def
      DecodeIfFrameEmpty_def TransferFrame_def FrameFinished_def list_source_def slow_sink_def)

lemma demo_run: "run_ops list_source slow_sink demo_audio [OpUpdate] = demo_audio_1"
  by (simp add: demo_update)

lemma demo_new:
  "demo_audio = PipeAudio_new (Some [[1, 2, 3], [4]]) (Some (PLAYING, 0, False)) 7"
  by (simp add: demo_audio_def)

section \<open>Whole seconds\<close>

lemma unat_secs: "unat ((m :: u64) div 1000 div 1000) = whole_seconds m"
  by (simp add: whole_seconds_def unat_div div_mult2_eq)

lemma secs_word: "(m :: u64) div 1000 div 1000 = word_of_nat (whole_seconds m)"
  by (simp flip: unat_secs)

lemma less_secs: "(t < (m :: u64) div 1000 div 1000) = (unat t < whole_seconds m)"
  by (simp add: word_less_nat_alt unat_secs)

lemma unat_whole_seconds: "unat (word_of_nat (whole_seconds m) :: u64) = whole_seconds m"
  by (simp add: unat_secs flip: secs_word)

lemma CanAnnounceTime_eq:
  "CanAnnounceTime micros a =
     (if \<not> announced_time a \<or> unat (last_time a) < whole_seconds micros
      then (True, a\<lparr>announced_time := True,
                     last_time := word_of_nat (whole_seconds micros)\<rparr>)
      else (False, a))"
  unfolding CanAnnounceTime_def Let_def less_secs by (simp only: secs_word)

lemma CanAnnounceTime_False:
  "\<not> fst (CanAnnounceTime micros a) \<Longrightarrow> snd (CanAnnounceTime micros a) = a"
  by (simp add: CanAnnounceTime_eq split: if_splits)

lemma CanAnnounceTime_True:
  assumes "fst (CanAnnounceTime micros a)"
  shows "announced_time (snd (CanAnnounceTime micros a))"
    and "unat (last_time (snd (CanAnnounceTime micros a))) = whole_seconds micros"
    and "announced_time a \<Longrightarrow> unat (last_time a) < whole_seconds micros"
  using assms by (auto simp: CanAnnounceTime_eq unat_whole_seconds split: if_splits)

section \<open>The update cycle\<close>

text \<open>
  Claim C1. On a \<open>PipeAudio\<close> that holds a source and a sink and whose frame is empty
  or has its cursor inside it, one call of \<open>Update\<close> is exactly the specified cycle:
  it decodes when the frame is finished, replaces the frame, tells the sink that the
  source is out exactly when that decode returned \<open>END_OF_FILE\<close>, transfers from the
  cursor when the frame is non-empty, clears the frame when the cursor reaches its end,
  and returns the sink's state.
\<close>

theorem Update_performs_update_cycle:
  assumes "src a = Some s" and "sink a = Some k" and "frame_inv a"
  shows "Update so ko a = update_cycle so ko s k a"
  using assms
  unfolding Update_def update_cycle_def DecodeIfFrameEmpty_def TransferFrame_def
    FrameFinished_def ClearFrame_def frame_inv_def Let_def
  by (auto split: prod.splits sum.splits option.splits if_splits)

theorem Update_performs_update_cycle_witness:
  "src demo_audio = Some [[1, 2, 3], [4]] \<and> sink demo_audio = Some (PLAYING, 0, False)
   \<and> frame_inv demo_audio
   \<and> update_cycle list_source slow_sink [[1, 2, 3], [4]] (PLAYING, 0, False) demo_audio
       = (Inr PLAYING, demo_audio_1)"
proof -
  have h1: "src demo_audio = Some [[1, 2, 3], [4]]"
    and h2: "sink demo_audio = Some (PLAYING, 0, False)"
    and h3: "frame_inv demo_audio"
    by (simp_all add: demo_audio_def PipeAudio_new_def ClearFrame_def frame_inv_def)
  from Update_performs_update_cycle [OF h1 h2 h3, of list_source slow_sink] h1 h2 h3
  show ?thesis by (simp add: demo_update)
qed

section \<open>Broadcast throttling\<close>

text \<open>
  Claim C2. \<open>CanAnnounceTime\<close> returns true if and only if no announcement has
  occurred since the last reset or the whole seconds of the given microseconds
  strictly exceed the last announced whole second; exactly when it returns true it
  records those whole seconds as the last announced and marks an announcement as
  having occurred, and otherwise it changes nothing.
\<close>

theorem CanAnnounceTime_spec:
  "fst (CanAnnounceTime micros a)
     = (\<not> announced_time a \<or> unat (last_time a) < whole_seconds micros)
   \<and> snd (CanAnnounceTime micros a) =
       (if fst (CanAnnounceTime micros a)
        then a\<lparr>announced_time := True, last_time := word_of_nat (whole_seconds micros)\<rparr>
        else a)"
  by (simp add: CanAnnounceTime_eq)

theorem CanAnnounceTime_spec_witness:
  "fst (CanAnnounceTime 2500000 (demo_audio_1\<lparr>announced_time := True, last_time := 1\<rparr>))
   \<and> last_time (snd (CanAnnounceTime 2500000
        (demo_audio_1\<lparr>announced_time := True, last_time := 1\<rparr>))) = 2
   \<and> fst (CanAnnounceTime 1999999 demo_audio_1)
   \<and> CanAnnounceTime 1999999 (demo_audio_1\<lparr>announced_time := True, last_time := 1\<rparr>)
       = (False, demo_audio_1\<lparr>announced_time := True, last_time := 1\<rparr>)"
  using CanAnnounceTime_spec [of 2500000 "demo_audio_1\<lparr>announced_time := True, last_time := 1\<rparr>"]
    CanAnnounceTime_spec [of 1999999 demo_audio_1]
    CanAnnounceTime_spec [of 1999999 "demo_audio_1\<lparr>announced_time := True, last_time := 1\<rparr>"]
  by (simp add: whole_seconds_def demo_audio_1_def prod_eq_iff)

section \<open>The invariant on exit\<close>

text \<open>
  Claim C3. Take any \<open>PipeAudio\<close> constructed with a source and a sink and brought
  to any state by a sequence of calls (updates, seeks, the other calls of its
  interface, the device callback in between). A call of \<open>Update\<close> on it fails none of
  its assertions, the one on exit from the transfer step included, and leaves the
  object with its frame empty or with the cursor satisfying
  \<open>frame.begin \<le> cursor < frame.end\<close>; this holds for every call that runs to
  completion, and also for one that a decoder exception cuts short.
\<close>

theorem Update_exit_invariant:
  "fst (Update so ko (run_ops so ko (PipeAudio_new (Some s) (Some k) lt) ops))
     \<noteq> Inl AssertionFailure
   \<and> (frame (snd (Update so ko (run_ops so ko (PipeAudio_new (Some s) (Some k) lt) ops))) = []
      \<or> (0 \<le> frame_iterator
                 (snd (Update so ko (run_ops so ko (PipeAudio_new (Some s) (Some k) lt) ops)))
         \<and> frame_iterator
               (snd (Update so ko (run_ops so ko (PipeAudio_new (Some s) (Some k) lt) ops)))
             < length (frame
                 (snd (Update so ko (run_ops so ko (PipeAudio_new (Some s) (Some k) lt) ops))))))"
proof -
  define a where "a = run_ops so ko (PipeAudio_new (Some s) (Some k) lt) ops"
  have "constructed a"
    unfolding a_def by (rule run_ops_constructed) (rule constructed_new)
  then have "fst (Update so ko a) \<noteq> Inl AssertionFailure"
    and "constructed (snd (Update so ko a))"
    using Update_constructed [of a so ko] by simp_all
  then show ?thesis
    unfolding a_def constructed_def frame_inv_def by simp
qed

lemma demo_update_again:
  "Update list_source slow_sink demo_audio_1 =
     (Inr PLAYING,
      \<lparr>src = Some [[4]], sink = Some (PLAYING, 2, False), frame = [],
        frame_iterator = 0, announced_time = False, last_time = 7\<rparr>)"
  by (simp add: demo_audio_1_def ClearFrame_def Update_def DecodeIfFrameEmpty_def
      TransferFrame_def FrameFinished_def slow_sink_def)

theorem Update_exit_invariant_witness:
  "Update list_source slow_sink (run_ops list_source slow_sink demo_audio [])
     = (Inr PLAYING, demo_audio_1)
   \<and> frame demo_audio_1 \<noteq> []
   \<and> frame_iterator demo_audio_1 < length (frame demo_audio_1)
   \<and> fst (Update list_source slow_sink (run_ops list_source slow_sink demo_audio [OpUpdate]))
       = Inr PLAYING
   \<and> frame (snd (Update list_source slow_sink
                   (run_ops list_source slow_sink demo_audio [OpUpdate]))) = []"
proof -
  have ne: "frame demo_audio_1 \<noteq> []" by (simp add: demo_audio_1_def)
  from Update_exit_invariant [of list_source slow_sink "[[1, 2, 3], [4]]"
      "(PLAYING, 0, False)" 7 "[]"]
  have "frame demo_audio_1 = []
        \<or> frame_iterator demo_audio_1 < length (frame demo_audio_1)"
    unfolding demo_new [symmetric] by (simp add: demo_update)
  with ne have "frame_iterator demo_audio_1 < length (frame demo_audio_1)" by simp
  with ne show ?thesis by (simp add: demo_update demo_run demo_update_again)
qed

section \<open>Seeking\<close>

text \<open>
  Claim C4. A seek to a microsecond position on a \<open>PipeAudio\<close> with a source and a
  sink converts the position to samples through the source, asks the source to seek
  there, and, when the source answers with the sample index it achieved, hands exactly
  that index to the sink's \<open>SetPosition\<close>, clears the frame and resets the
  announced-time flag, so that the next \<open>CanAnnounceTime\<close> returns true whatever its
  argument.
\<close>

theorem Seek_effect:
  assumes "src a = Some s" and "sink a = Some k"
    and "Source_Seek so s (Source_SamplesFromMicros so s position) = (Inr actual, s')"
  shows "Seek so ko position a =
           (Inr (), a\<lparr>src := Some s', sink := Some (Sink_SetPosition ko k actual),
                       announced_time := False, frame := [], frame_iterator := 0\<rparr>)
         \<and> fst (CanAnnounceTime micros (snd (Seek so ko position a)))"
  using assms by (simp add: Seek_def ClearFrame_def CanAnnounceTime_def Let_def)

theorem Seek_effect_witness:
  "src demo_audio_1 = Some [[4]] \<and> sink demo_audio_1 = Some (PLAYING, 1, False)
   \<and> Source_Seek list_source [[4]] (Source_SamplesFromMicros list_source [[4]] 3000000)
       = (Inr 3, [[4]])
   \<and> Seek list_source slow_sink 3000000 demo_audio_1 =
       (Inr (), \<lparr>src = Some [[4]], sink = Some (PLAYING, 3, False), frame = [],
                  frame_iterator = 0, announced_time = False, last_time = 7\<rparr>)
   \<and> fst (CanAnnounceTime 0 (snd (Seek list_source slow_sink 3000000 demo_audio_1)))"
proof -
  have h1: "src demo_audio_1 = Some [[4]]"
    and h2: "sink demo_audio_1 = Some (PLAYING, 1, False)"
    by (simp_all add: demo_audio_1_def)
  have h3: "Source_Seek list_source [[4]] (Source_SamplesFromMicros list_source [[4]] 3000000)
              = (Inr 3, [[4]])"
    by (simp add: list_source_def)
  note r = Seek_effect [OF h1 h2 h3, of slow_sink 0]
  have eq: "Seek list_source slow_sink 3000000 demo_audio_1 =
       (Inr (), \<lparr>src = Some [[4]], sink = Some (PLAYING, 3, False), frame = [],
                  frame_iterator = 0, announced_time = False, last_time = 7\<rparr>)"
    using r [THEN conjunct1] by (simp add: demo_audio_1_def slow_sink_def)
  from h1 h2 h3 eq r [THEN conjunct2] show ?thesis by blast
qed

section \<open>Assertions in the update cycle\<close>

text \<open>
  Claim C10. Along any sequence of calls on a \<open>PipeAudio\<close> constructed with a source
  and a sink (updates, seeks, and the other calls of its interface, with the device
  callback running in between), \<open>Update\<close> never fails an assertion, and whenever it
  reaches the transfer step (the state \<open>a2\<close> after the decode step, under the guard
  \<open>\<not> FrameFinished\<close>) the frame is non-empty, the cursor is strictly before the
  frame's end, and \<open>TransferFrame\<close> returns normally.
\<close>

theorem TransferFrame_precondition:
  "fst (Update so ko (run_ops so ko (PipeAudio_new (Some s) (Some k) lt) ops))
     \<noteq> Inl AssertionFailure
   \<and> (\<forall>avail a1.
        DecodeIfFrameEmpty so (run_ops so ko (PipeAudio_new (Some s) (Some k) lt) ops)
          = (Inr avail, a1) \<longrightarrow>
        (let a2 = (if \<not> avail then a1\<lparr>sink := map_option (Sink_SourceOut ko) (sink a1)\<rparr>
                   else a1)
         in \<not> FrameFinished a2 \<longrightarrow>
            frame a2 \<noteq> [] \<and> frame_iterator a2 < length (frame a2)
            \<and> fst (TransferFrame ko a2) = Inr ()))"
proof -
  define a where "a = run_ops so ko (PipeAudio_new (Some s) (Some k) lt) ops"
  have c: "constructed a"
    unfolding a_def by (rule run_ops_constructed) (rule constructed_new)
  have 1: "fst (Update so ko a) \<noteq> Inl AssertionFailure"
    using Update_constructed [OF c] by simp
  have 2: "frame a2 \<noteq> [] \<and> frame_iterator a2 < length (frame a2)
           \<and> fst (TransferFrame ko a2) = Inr ()"
    if d: "DecodeIfFrameEmpty so a = (Inr avail, a1)"
      and a2: "a2 = (if \<not> avail then a1\<lparr>sink := map_option (Sink_SourceOut ko) (sink a1)\<rparr>
                     else a1)"
      and nf: "\<not> FrameFinished a2"
    for avail a1 a2
  proof -
    have "constructed a1" using c d by (rule DecodeIfFrameEmpty_constructed)
    then have c2: "constructed a2" unfolding a2 by (simp add: constructed_map_sink)
    from nf have "frame_iterator a2 < length (frame a2)" by (simp add: FrameFinished_def)
    moreover from this have "frame a2 \<noteq> []" by auto
    moreover have "fst (TransferFrame ko a2) = Inr ()"
      using TransferFrame_constructed [OF c2 nf] by simp
    ultimately show ?thesis by simp
  qed
  from 1 2 show ?thesis unfolding a_def Let_def by blast
qed

theorem TransferFrame_precondition_witness:
  "DecodeIfFrameEmpty list_source (run_ops list_source slow_sink demo_audio [OpUpdate])
     = (Inr True, demo_audio_1)
   \<and> \<not> FrameFinished demo_audio_1
   \<and> frame demo_audio_1 \<noteq> []
   \<and> frame_iterator demo_audio_1 < length (frame demo_audio_1)
   \<and> fst (TransferFrame slow_sink demo_audio_1) = Inr ()
   \<and> fst (Update list_source slow_sink (run_ops list_source slow_sink demo_audio [OpUpdate]))
       \<noteq> Inl AssertionFailure"
proof -
  have d: "DecodeIfFrameEmpty list_source
             (run_ops list_source slow_sink
                (PipeAudio_new (Some [[1, 2, 3], [4]]) (Some (PLAYING, 0, False)) 7) [OpUpdate])
           = (Inr True, demo_audio_1)"
    unfolding demo_new [symmetric] demo_run
    by (simp add: DecodeIfFrameEmpty_def FrameFinished_def demo_audio_1_def)
  have nf: "\<not> FrameFinished demo_audio_1"
    by (simp add: FrameFinished_def demo_audio_1_def)
  note r = TransferFrame_precondition [of list_source slow_sink "[[1, 2, 3], [4]]"
      "(PLAYING, 0, False)" 7 "[OpUpdate]"]
  from r [THEN conjunct2, rule_format, OF d] nf
  have "frame demo_audio_1 \<noteq> [] \<and> frame_iterator demo_audio_1 < length (frame demo_audio_1)
        \<and> fst (TransferFrame slow_sink demo_audio_1) = Inr ()"
    by (simp add: Let_def)
  with d nf r [THEN conjunct1] show ?thesis
    unfolding demo_new [symmetric] by blast
qed

section \<open>Position broadcasts\<close>

lemma DecodeIfFrameEmpty_same: "same_record a (snd (DecodeIfFrameEmpty so a))"
  by (simp add: DecodeIfFrameEmpty_def same_record_def split: option.splits prod.splits sum.splits)

lemma TransferFrame_same: "same_record a (snd (TransferFrame ko a))"
  by (simp add: TransferFrame_def same_record_def ClearFrame_def Let_def split_def
      split: option.splits)

lemma Update_same: "same_record a (snd (Update so ko a))"
proof (cases "sink a = None \<or> src a = None")
  case True
  then show ?thesis by (auto simp: Update_def same_record_def split: option.splits)
next
  case False
  then obtain s0 k0 where sk: "src a = Some s0" "sink a = Some k0" by auto
  obtain r a1 where d: "DecodeIfFrameEmpty so a = (r, a1)" by (cases "DecodeIfFrameEmpty so a")
  have s1: "same_record a a1" using DecodeIfFrameEmpty_same [of a so] d by simp
  show ?thesis
  proof (cases r)
    case (Inl e)
    with sk d s1 show ?thesis by (simp add: Update_def)
  next
    case (Inr avail)
    define a2 where
      "a2 = (if \<not> avail then a1\<lparr>sink := map_option (Sink_SourceOut ko) (sink a1)\<rparr> else a1)"
    have s2: "same_record a a2" using s1 by (simp add: a2_def same_record_def)
    obtain r3 a3 where
      t: "(if \<not> FrameFinished a2 then TransferFrame ko a2 else (Inr (), a2)) = (r3, a3)"
      by (cases "if \<not> FrameFinished a2 then TransferFrame ko a2 else (Inr (), a2)")
    have "same_record a2 a3"
      using t TransferFrame_same [of a2 ko] by (auto simp: same_record_def split: if_splits)
    with s2 have s3: "same_record a a3" by (simp add: same_record_def)
    have "Update so ko a =
            (case (if \<not> FrameFinished a2 then TransferFrame ko a2 else (Inr (), a2)) of
               (Inl e, a3) \<Rightarrow> (Inl e, a3)
             | (Inr u, a3) \<Rightarrow>
                 (case sink a3 of
                    None \<Rightarrow> (Inl AssertionFailure, a3)
                  | Some k \<Rightarrow> (Inr (Sink_State ko k), a3)))"
      using sk d Inr by (simp add: Update_def a2_def Let_def)
    then have "snd (Update so ko a) = a3"
      unfolding t by (simp split: sum.splits option.splits)
    with s3 show ?thesis by simp
  qed
qed

lemma SetPlaying_same: "same_record a (snd (SetPlaying ko b a))"
  by (simp add: SetPlaying_def same_record_def split: option.splits)

lemma Emit_elapsed_broadcast:
  assumes "src a = Some s" and "sink a = Some k"
  shows "Emit so ko ''/player/time/elapsed'' True a =
           (let micros = Source_MicrosFromSamples so s (Sink_Position ko k) in
            if fst (CanAnnounceTime micros a)
            then (Inr (Some (Res ''Entry'' ''/player/time/elapsed'' (to_string (unat micros)))),
                  snd (CanAnnounceTime micros a))
            else (Inr None, a))"
  using assms
  by (simp add: Emit_def Position_def Let_def split_def CanAnnounceTime_False)

lemma Emit_unchanged:
  assumes "\<not> (broadcast \<and> path = ''/player/time/elapsed'')"
  shows "snd (Emit so ko path broadcast a) = a"
  using assms by (auto simp: Emit_def Let_def split: option.splits sum.splits)

lemma Emit_no_object:
  assumes "src a = None \<or> sink a = None"
  shows "Emit so ko path broadcast a = (Inl AssertionFailure, a)"
  using assms by (auto simp: Emit_def split: option.splits)

text \<open>A call either broadcasts no position and leaves the throttle's record alone, or
  broadcasts one position that the throttle let through.\<close>

lemma pos_broadcast_cases:
  assumes "\<not> is_seek op"
  obtains (silent) "pos_broadcast so ko op a = []" "same_record a (apply_op so ko op a)"
    | (announced) micros where "pos_broadcast so ko op a = [micros]"
        "fst (CanAnnounceTime micros a)" "apply_op so ko op a = snd (CanAnnounceTime micros a)"
proof (cases op)
  case OpUpdate
  then have "pos_broadcast so ko op a = []" "same_record a (apply_op so ko op a)"
    by (simp_all add: pos_broadcast_def Update_same)
  then show ?thesis by (rule silent)
next
  case (OpSeek p)
  with assms show ?thesis by (simp add: is_seek_def)
next
  case (OpSetPlaying b)
  then have "pos_broadcast so ko op a = []" "same_record a (apply_op so ko op a)"
    by (simp_all add: pos_broadcast_def SetPlaying_same)
  then show ?thesis by (rule silent)
next
  case (OpCallback f)
  then have "pos_broadcast so ko op a = []" "same_record a (apply_op so ko op a)"
    by (simp_all add: pos_broadcast_def same_record_def)
  then show ?thesis by (rule silent)
next
  case (OpEmit path broadcast)
  show ?thesis
  proof (cases "broadcast \<and> path = ''/player/time/elapsed''")
    case False
    with OpEmit have "pos_broadcast so ko op a = []" "same_record a (apply_op so ko op a)"
      by (auto simp: pos_broadcast_def Emit_unchanged same_record_def)
    then show ?thesis by (rule silent)
  next
    case True
    then have op: "op = OpEmit ''/player/time/elapsed'' True" using OpEmit by simp
    show ?thesis
    proof (cases "src a = None \<or> sink a = None")
      case True
      from Emit_no_object [OF True]
      have "pos_broadcast so ko op a = []" "same_record a (apply_op so ko op a)"
        by (simp_all add: op pos_broadcast_def same_record_def split: sum.splits)
      then show ?thesis by (rule silent)
    next
      case False
      then obtain s k where sk: "src a = Some s" "sink a = Some k" by auto
      define micros where "micros = Source_MicrosFromSamples so s (Sink_Position ko k)"
      have pos: "Position so ko a = Inr micros"
        using sk by (simp add: Position_def micros_def)
      note e = Emit_elapsed_broadcast [OF sk, of so ko, folded micros_def, unfolded Let_def]
      show ?thesis
      proof (cases "fst (CanAnnounceTime micros a)")
        case True
        with e pos have "pos_broadcast so ko op a = [micros]"
          "apply_op so ko op a = snd (CanAnnounceTime micros a)"
          by (simp_all add: op pos_broadcast_def)
        with True show ?thesis by (intro announced [of micros])
      next
        case False
        with e pos have "pos_broadcast so ko op a = []" "same_record a (apply_op so ko op a)"
          by (simp_all add: op pos_broadcast_def same_record_def)
        then show ?thesis by (rule silent)
      qed
    qed
  qed
qed

lemma broadcast_log_increasing:
  assumes "\<forall>op \<in> set ops. \<not> is_seek op"
  shows "sorted_wrt (<) (map whole_seconds (broadcast_log so ko a ops))
         \<and> (announced_time a \<longrightarrow>
              (\<forall>m \<in> set (broadcast_log so ko a ops). unat (last_time a) < whole_seconds m))"
  using assms
proof (induction ops arbitrary: a)
  case Nil
  then show ?case by simp
next
  case (Cons op ops)
  let ?a' = "apply_op so ko op a"
  from Cons.prems have ns: "\<not> is_seek op" and rest: "\<forall>op \<in> set ops. \<not> is_seek op"
    by simp_all
  note IH = Cons.IH [OF rest, of ?a']
  from ns show ?case
  proof (cases rule: pos_broadcast_cases [where so = so and ko = ko and a = a])
    case silent
    then have "announced_time ?a' = announced_time a" "last_time ?a' = last_time a"
      by (simp_all add: same_record_def)
    with IH silent(1) show ?thesis by simp
  next
    case (announced micros)
    note t = CanAnnounceTime_True [OF announced(2)]
    from t(1,2) have ann: "announced_time ?a'" and lt: "unat (last_time ?a') = whole_seconds micros"
      unfolding announced(3) by simp_all
    from IH ann lt
    have later: "\<forall>m \<in> set (broadcast_log so ko ?a' ops). whole_seconds micros < whole_seconds m"
      by simp
    from t(3) have old: "announced_time a \<longrightarrow> unat (last_time a) < whole_seconds micros" by simp
    from IH later old show ?thesis
      by (auto simp: announced(1))
  qed
qed

text \<open>
  Claim C5. Over any sequence of calls on one \<open>PipeAudio\<close> that contains no seek
  (periodic updates, starts and stops, unicast queries, the device callback moving the
  sink's position in any way), the whole seconds of the positions actually broadcast
  never decrease from one broadcast to the next.
\<close>

theorem broadcast_positions_monotone:
  assumes "\<forall>op \<in> set ops. \<not> is_seek op"
  shows "sorted (map whole_seconds (broadcast_log so ko a ops))"
proof -
  from broadcast_log_increasing [OF assms, of so ko a]
  have "sorted_wrt (<) (map whole_seconds (broadcast_log so ko a ops))" by simp
  then show ?thesis by (rule sorted_wrt_mono_rel [rotated]) simp
qed

lemma demo_broadcast_log:
  "broadcast_log list_source slow_sink demo_audio demo_ops = [0, 1000000, 9000000]"
  by (simp add: demo_ops_def elapsed_def demo_audio_def PipeAudio_new_def ClearFrame_def
      pos_broadcast_def Emit_def Position_def CanAnnounceTime_def Update_def
      DecodeIfFrameEmpty_def TransferFrame_def FrameFinished_def list_source_def slow_sink_def
      Let_def)

theorem broadcast_positions_monotone_witness:
  "filter is_seek demo_ops = []
   \<and> broadcast_log list_source slow_sink demo_audio demo_ops = [0, 1000000, 9000000]
   \<and> sorted (map whole_seconds (broadcast_log list_source slow_sink demo_audio demo_ops))"
proof -
  have h: "\<forall>op \<in> set demo_ops. \<not> is_seek op"
    by (simp add: demo_ops_def is_seek_def)
  then have "filter is_seek demo_ops = []" by (simp add: filter_empty_conv)
  with broadcast_positions_monotone [OF h, of list_source slow_sink demo_audio]
    demo_broadcast_log
  show ?thesis by blast
qed

section \<open>No file loaded\<close>

text \<open>
  Claim C6, as amended. On \<open>NoAudio\<close>, \<open>SetPlaying\<close> (with either argument), \<open>Seek\<close> and
  \<open>Position\<close> fail with \<open>NoAudioError\<close> and leave the audio as it was; \<open>Update\<close>
  succeeds and returns \<open>NONE\<close>; and \<open>Emit\<close> succeeds as well, answering the state query
  \<open>/control/state\<close> with \<open>Ejected\<close> and every other path with no response.
\<close>

theorem NoAudio_calls:
  "Audio_call so ko (CallSetPlaying playing) NoAudio
     = (Inl (NoAudioError MSG_CMD_NEEDS_LOADED), NoAudio)
   \<and> Audio_call so ko (CallSeek position) NoAudio
     = (Inl (NoAudioError MSG_CMD_NEEDS_LOADED), NoAudio)
   \<and> Audio_call so ko CallPosition NoAudio
     = (Inl (NoAudioError MSG_CMD_NEEDS_LOADED), NoAudio)
   \<and> Audio_call so ko CallUpdate NoAudio = (Inr (RetState NONE), NoAudio)
   \<and> Audio_call so ko (CallEmit path broadcast) NoAudio
     = (Inr (RetResponse (if path = ''/control/state''
                          then Some (Res ''Entry'' ''/control/state'' ''Ejected'')
                          else None)), NoAudio)"
  by (simp add: NoAudio_SetPlaying_def NoAudio_Seek_def NoAudio_Position_def
      NoAudio_Update_def NoAudio_Emit_def)

theorem NoAudio_calls_witness:
  "Audio_call list_source slow_sink (CallSetPlaying True) NoAudio
     = (Inl (NoAudioError MSG_CMD_NEEDS_LOADED), NoAudio)
   \<and> Audio_call list_source slow_sink (CallSeek 5000000) NoAudio
     = (Inl (NoAudioError MSG_CMD_NEEDS_LOADED), NoAudio)
   \<and> Audio_call list_source slow_sink CallPosition NoAudio
     = (Inl (NoAudioError MSG_CMD_NEEDS_LOADED), NoAudio)
   \<and> Audio_call list_source slow_sink CallUpdate NoAudio = (Inr (RetState NONE), NoAudio)
   \<and> Audio_call list_source slow_sink (CallEmit ''/player/file'' False) NoAudio
     = (Inr (RetResponse None), NoAudio)"
  using NoAudio_calls [of list_source slow_sink True 5000000 "''/player/file''" False]
  by simp

text \<open>
  The claim as stated has \<open>Update\<close> as the only call that succeeds on \<open>NoAudio\<close>. The
  state query is a second one: it returns a response and throws nothing.
\<close>

theorem NoAudio_state_query_succeeds:
  "Audio_call list_source slow_sink (CallEmit ''/control/state'' False) NoAudio
     = (Inr (RetResponse (Some (Res ''Entry'' ''/control/state'' ''Ejected''))), NoAudio)
   \<and> CallEmit ''/control/state'' False \<noteq> CallUpdate"
  by (simp add: NoAudio_Emit_def)

section \<open>Packing and tokenising\<close>

lemma Feed_append:
  "Feed t (xs @ ys) = (fst (Feed t xs) @ fst (Feed (snd (Feed t xs)) ys), snd (Feed (snd (Feed t xs)) ys))"
  by (induction xs arbitrary: t) (simp_all add: split_def Let_def split: option.splits)

lemma Feed_plain:
  assumes "\<forall>c \<in> set w. \<not> escaper c" and "w \<noteq> []" and "st = NORMAL \<or> st = IN_WORD"
  shows "Feed \<lparr>tok_state = st, words = ws, current_word = cur\<rparr> w
           = ([], \<lparr>tok_state = IN_WORD, words = ws, current_word = cur @ w\<rparr>)"
  using assms
proof (induction w arbitrary: st cur)
  case Nil
  then show ?case by simp
next
  case (Cons c w)
  from Cons.prems have c: "\<not> escaper c" by simp
  with Cons.prems(3)
  have step: "feed_byte c \<lparr>tok_state = st, words = ws, current_word = cur\<rparr>
                = (None, \<lparr>tok_state = IN_WORD, words = ws, current_word = cur @ [c]\<rparr>)"
    by (auto simp: feed_byte_def feed_unquoted_def escaper_def Push_def)
  show ?case
  proof (cases "w = []")
    case True
    with step show ?thesis by simp
  next
    case False
    with Cons.prems have "Feed \<lparr>tok_state = IN_WORD, words = ws, current_word = cur @ [c]\<rparr> w
           = ([], \<lparr>tok_state = IN_WORD, words = ws, current_word = (cur @ [c]) @ w\<rparr>)"
      by (intro Cons.IH) simp_all
    with step show ?thesis by simp
  qed
qed

lemma Feed_quoted_body:
  "Feed \<lparr>tok_state = IN_DOUBLE, words = ws, current_word = cur\<rparr> (concat (map escape_char w))
     = ([], \<lparr>tok_state = IN_DOUBLE, words = ws, current_word = cur @ w\<rparr>)"
proof (induction w arbitrary: cur)
  case Nil
  then show ?case by simp
next
  case (Cons c w)
  have "Feed \<lparr>tok_state = IN_DOUBLE, words = ws, current_word = cur\<rparr> (escape_char c)
          = ([], \<lparr>tok_state = IN_DOUBLE, words = ws, current_word = cur @ [c]\<rparr>)"
    by (simp add: escape_char_def feed_byte_def Push_def)
  with Cons.IH [of "cur @ [c]"] show ?case by (simp add: Feed_append)
qed

lemma Feed_EscapeArg:
  "Feed \<lparr>tok_state = NORMAL, words = ws, current_word = []\<rparr> (EscapeArg w)
     = ([], \<lparr>tok_state = IN_WORD, words = ws, current_word = w\<rparr>)"
proof (cases "needs_quoting w")
  case True
  have op: "Feed \<lparr>tok_state = NORMAL, words = ws, current_word = []\<rparr> [DQUOTE]
          = ([], \<lparr>tok_state = IN_DOUBLE, words = ws, current_word = []\<rparr>)"
    by (simp add: feed_byte_def feed_unquoted_def)
  have cl: "Feed \<lparr>tok_state = IN_DOUBLE, words = ws, current_word = w\<rparr> [DQUOTE]
          = ([], \<lparr>tok_state = IN_WORD, words = ws, current_word = w\<rparr>)"
    by (simp add: feed_byte_def)
  have body: "Feed \<lparr>tok_state = IN_DOUBLE, words = ws, current_word = []\<rparr>
                (concat (map escape_char w))
              = ([], \<lparr>tok_state = IN_DOUBLE, words = ws, current_word = w\<rparr>)"
    using Feed_quoted_body [of ws "[]" w] by simp
  have "Feed \<lparr>tok_state = NORMAL, words = ws, current_word = []\<rparr>
          ([DQUOTE] @ concat (map escape_char w) @ [DQUOTE])
        = ([], \<lparr>tok_state = IN_WORD, words = ws, current_word = w\<rparr>)"
    by (simp only: Feed_append op body cl fst_conv snd_conv append_Nil)
  with True show ?thesis by (simp only: EscapeArg_def if_True)
next
  case False
  then have "w \<noteq> []" "\<forall>c \<in> set w. \<not> escaper c"
    by (auto simp: needs_quoting_def list_ex_iff)
  with False Feed_plain [of w NORMAL ws "[]"] show ?thesis by (simp add: EscapeArg_def)
qed

lemma Feed_code_name:
  "Feed \<lparr>tok_state = NORMAL, words = ws, current_word = []\<rparr> (code_name code)
     = ([], \<lparr>tok_state = IN_WORD, words = ws, current_word = code_name code\<rparr>)"
proof -
  have "\<forall>c \<in> set (code_name code). \<not> escaper c" "code_name code \<noteq> []"
    by (cases code; simp add: escaper_def)+
  with Feed_plain [of "code_name code" NORMAL ws "[]"] show ?thesis by simp
qed

lemma Feed_space:
  "Feed \<lparr>tok_state = IN_WORD, words = ws, current_word = w\<rparr> [SPACE]
     = ([], \<lparr>tok_state = NORMAL, words = ws @ [w], current_word = []\<rparr>)"
  by (simp add: feed_byte_def feed_unquoted_def EndWord_def)

lemma Feed_newline:
  "Feed \<lparr>tok_state = IN_WORD, words = ws, current_word = w\<rparr> [LF] = ([ws @ [w]], Tokeniser_new)"
  by (simp add: feed_byte_def feed_unquoted_def EndWord_def)

lemma Feed_args:
  "Feed \<lparr>tok_state = IN_WORD, words = ws, current_word = w\<rparr>
     (concat (map (\<lambda>a. [SPACE] @ EscapeArg a) args) @ [LF])
     = ([ws @ w # args], Tokeniser_new)"
proof (induction args arbitrary: ws w)
  case Nil
  then show ?case using Feed_newline [of ws w] by simp
next
  case (Cons a args)
  have "Feed \<lparr>tok_state = IN_WORD, words = ws, current_word = w\<rparr> ([SPACE] @ EscapeArg a)
          = ([], \<lparr>tok_state = IN_WORD, words = ws @ [w], current_word = a\<rparr>)"
    using Feed_space [of ws w] Feed_EscapeArg [of "ws @ [w]" a]
    by (simp only: Feed_append) simp
  with Cons.IH [of "ws @ [w]" a] show ?case
    by (simp add: Feed_append del: Feed.simps append.simps)
qed

lemma build_response_eq:
  "build_response tag code args
     = EscapeArg tag @ [SPACE] @ code_name code @ concat (map (\<lambda>a. [SPACE] @ EscapeArg a) args)"
proof -
  have "foldl AddArg r args = r @ concat (map (\<lambda>a. [SPACE] @ EscapeArg a) args)" for r
    by (induction args arbitrary: r) (simp_all add: AddArg_def)
  then show ?thesis by (simp add: build_response_def Response_new_def)
qed

lemma length_escaped: "length arg \<le> length (concat (map escape_char arg))"
  by (induction arg) (simp_all add: escape_char_def)

lemma EscapeArg_verbatim: "(EscapeArg arg = arg) = (\<not> needs_quoting arg)"
proof (cases "needs_quoting arg")
  case True
  then have "length (EscapeArg arg) = length (concat (map escape_char arg)) + 2"
    by (simp add: EscapeArg_def)
  with length_escaped [of arg] have "length (EscapeArg arg) \<noteq> length arg" by simp
  with True show ?thesis by auto
next
  case False
  then show ?thesis by (simp add: EscapeArg_def)
qed

lemma EscapeArg_last: "EscapeArg arg \<noteq> [] \<and> last (EscapeArg arg) \<noteq> LF"
proof (cases "needs_quoting arg")
  case True
  then show ?thesis by (simp add: EscapeArg_def)
next
  case False
  then have ne: "arg \<noteq> []" and pl: "\<forall>c \<in> set arg. \<not> escaper c"
    by (auto simp: needs_quoting_def list_ex_iff)
  from ne have "last arg \<in> set arg" by simp
  with pl have "\<not> escaper (last arg)" by blast
  then have "last arg \<noteq> LF" by (auto simp: escaper_def)
  with False ne show ?thesis by (simp add: EscapeArg_def)
qed

lemma code_name_last: "code_name code \<noteq> [] \<and> last (code_name code) \<noteq> LF"
  by (cases code) simp_all

lemma build_response_last:
  "build_response tag code args \<noteq> [] \<and> last (build_response tag code args) \<noteq> LF"
proof (cases args rule: rev_cases)
  case Nil
  with code_name_last [of code] show ?thesis by (simp add: build_response_eq)
next
  case (snoc as a)
  with EscapeArg_last [of a] show ?thesis by (simp add: build_response_eq)
qed

lemma RESPONSES_total: "\<exists>name. RESPONSES code = Some name \<and> name \<noteq> [] "
  by (cases code) (simp_all add: RESPONSES_def)

lemma demo_packed:
  "Pack demo_response
     = ''x1 ACK OK '' @ [DQUOTE] @ ''a b'' @ [DQUOTE, SPACE, DQUOTE, DQUOTE]"
  by (simp add: demo_response_def Pack_def build_response_def Response_new_def AddArg_def
      EscapeArg_def needs_quoting_def escaper_def escape_char_def)

text \<open>
  Claim C7. For every response built from a tag, a code and any list of arguments,
  feeding its packed line, followed by the newline that frames it, to a fresh
  tokeniser yields exactly one line whose words are the tag, the wire name of the code
  and the arguments, and leaves the tokeniser fresh; and packing emits an argument
  verbatim exactly when it is neither empty nor contains whitespace, a quote or a
  backslash (it is wrapped in double quotes, with double quotes and backslashes
  escaped, otherwise).
\<close>

theorem pack_tokenise_roundtrip:
  "Feed Tokeniser_new (Pack (build_response tag code args) @ [LF])
     = ([tag # code_name code # args], Tokeniser_new)
   \<and> (EscapeArg arg = arg) = (\<not> needs_quoting arg)"
proof -
  have 1: "Feed Tokeniser_new (EscapeArg tag @ [SPACE])
             = ([], \<lparr>tok_state = NORMAL, words = [tag], current_word = []\<rparr>)"
    using Feed_EscapeArg [of "[]" tag] Feed_space [of "[]" tag]
    by (simp add: Feed_append Tokeniser_new_def)
  have 2: "Feed \<lparr>tok_state = NORMAL, words = [tag], current_word = []\<rparr>
             (code_name code @ concat (map (\<lambda>a. [SPACE] @ EscapeArg a) args) @ [LF])
           = ([tag # code_name code # args], Tokeniser_new)"
    using Feed_code_name [of "[tag]" code] Feed_args [of "[tag]" "code_name code" args]
    by (simp add: Feed_append)
  have "Pack (build_response tag code args) @ [LF]
          = (EscapeArg tag @ [SPACE])
            @ (code_name code @ concat (map (\<lambda>a. [SPACE] @ EscapeArg a) args) @ [LF])"
    by (simp add: Pack_def build_response_eq)
  then have "Feed Tokeniser_new (Pack (build_response tag code args) @ [LF])
               = ([tag # code_name code # args], Tokeniser_new)"
    using 1 2 by (simp only: Feed_append) simp
  with EscapeArg_verbatim [of arg] show ?thesis by simp
qed

theorem pack_tokenise_roundtrip_witness:
  "Pack demo_response = ''x1 ACK OK '' @ [DQUOTE] @ ''a b'' @ [DQUOTE, SPACE, DQUOTE, DQUOTE]
   \<and> Feed Tokeniser_new (Pack demo_response @ [LF])
       = ([[''x1'', ''ACK'', ''OK'', ''a b'', []]], Tokeniser_new)
   \<and> EscapeArg ''OK'' = ''OK''
   \<and> EscapeArg [] = [DQUOTE, DQUOTE]"
proof -
  have "\<not> needs_quoting ''OK''" by (simp add: needs_quoting_def escaper_def)
  with pack_tokenise_roundtrip [of "''x1''" ACK "[''OK'', ''a b'', []]" "''OK''"] demo_packed
  show ?thesis by (simp add: demo_response_def EscapeArg_def needs_quoting_def)
qed

section \<open>Framing\<close>

text \<open>
  Claim C8. The packed form of a response is never empty and never ends in a newline;
  the connection's write path enqueues the packed form followed by one newline; and
  \<open>Responder::Respond\<close> likewise hands \<open>RespondRaw\<close> the code's name, the message and
  then the newline.
\<close>

theorem Pack_has_no_newline:
  "Pack (build_response tag code args) \<noteq> []
   \<and> last (Pack (build_response tag code args)) \<noteq> LF
   \<and> Connection_Respond (build_response tag code args) queue
       = queue @ [Pack (build_response tag code args) @ [LF]]
   \<and> (\<exists>name. RESPONSES rc = Some name
        \<and> Responder_Respond RespondRaw rc message io
            = (Inr (), RespondRaw (name @ [SPACE] @ message @ [LF]) io))"
proof -
  from RESPONSES_total [of rc] obtain name where "RESPONSES rc = Some name" by blast
  then have "\<exists>name. RESPONSES rc = Some name
        \<and> Responder_Respond RespondRaw rc message io
            = (Inr (), RespondRaw (name @ [SPACE] @ message @ [LF]) io)"
    by (simp add: Responder_Respond_def)
  with build_response_last [of tag code args] show ?thesis
    by (simp add: Pack_def Connection_Respond_def)
qed

theorem Pack_has_no_newline_witness:
  "Pack demo_response \<noteq> [] \<and> last (Pack demo_response) = DQUOTE
   \<and> Connection_Respond demo_response [] = [Pack demo_response @ [LF]]
   \<and> Responder_Respond (\<lambda>line out. out @ line) ResponseCode_OKAY ''load'' []
       = (Inr (), ''OKAY load'' @ [LF])"
proof -
  from Pack_has_no_newline [of "''x1''" ACK "[''OK'', ''a b'', []]" "[]"
      ResponseCode_OKAY "\<lambda>line out. out @ line" "''load''" "[]"]
  have "Pack demo_response \<noteq> []"
    and "Connection_Respond demo_response [] = [Pack demo_response @ [LF]]"
    and "\<exists>name. RESPONSES ResponseCode_OKAY = Some name
        \<and> Responder_Respond (\<lambda>line out. out @ line) ResponseCode_OKAY ''load'' []
            = (Inr (), [] @ (name @ [SPACE] @ ''load'' @ [LF]))"
    by (simp_all add: demo_response_def)
  moreover have "last (Pack demo_response) = DQUOTE" by (simp add: demo_packed)
  ultimately show ?thesis by (auto simp: RESPONSES_def)
qed

section \<open>Constructing and using the ring buffer\<close>





end
